theory Spec2Isabelle
  imports Main "HOL-Library.Word" "HOL-Library.Sublist"
begin

unbundle bit_operations_syntax

section \<open>libbb/executable.c: PATH resolution and exec dispatch\<close>

text \<open>
  A shallow embedding of \<^verbatim>\<open>libbb/executable.c\<close>. A C string is the list of its bytes
  before the terminating NUL; a \<^verbatim>\<open>const char *\<close> that points into a string is the
  string that starts there (the suffix), and a pointer that may be \<^verbatim>\<open>NULL\<close> is an
  \<open>option\<close>. The operating system and the rest of libbb are parameters: the kernel
  answers \<^verbatim>\<open>access\<close> and \<^verbatim>\<open>stat\<close> for the ids of the calling process, the environment
  answers \<^verbatim>\<open>getenv\<close>, the applet table answers \<^verbatim>\<open>find_applet_by_name\<close>, and \<^verbatim>\<open>execvp\<close>
  either replaces the process image or returns with an error number. A call that
  ends the process on the way has no return value.
\<close>

subsection \<open>The operating system as seen by the code\<close>

type_synonym errno = int
type_synonym mode_t = "32 word"

definition ENOENT :: errno where "ENOENT = 2"
definition EACCES :: errno where "EACCES = 13"

text \<open>The file type bits of \<^verbatim>\<open>st_mode\<close> (\<^verbatim>\<open>sys/stat.h\<close>, Linux values, octal in C).\<close>

definition S_IFMT :: mode_t where "S_IFMT = 0xF000"
definition S_IFREG :: mode_t where "S_IFREG = 0x8000"

definition S_ISREG :: "mode_t \<Rightarrow> bool" where
  "S_ISREG m = (m AND S_IFMT = S_IFREG)"




text \<open>
  The two system calls the probe makes, as the running process sees them.
  \<open>access_X_OK fs name\<close> is \<^verbatim>\<open>access(name, X_OK)\<close>: \<open>Inr ()\<close> when it returns 0, \<open>Inl e\<close>
  when it returns -1 with \<^verbatim>\<open>errno\<close> set to \<open>e\<close>. \<open>stat fs name\<close> is \<^verbatim>\<open>stat(name, &s)\<close>:
  \<open>Inr m\<close> when it returns 0 and stores \<open>m\<close> in \<^verbatim>\<open>s.st_mode\<close>, \<open>Inl e\<close> when it returns -1.
\<close>

record filesystem =
  access_X_OK :: "string \<Rightarrow> errno + unit"
  stat :: "string \<Rightarrow> errno + mode_t"





subsection \<open>file\_is\_executable\<close>

text \<open>
  \<^verbatim>\<open>return (!access(name, X_OK) && !stat(name, &s) && S_ISREG(s.st_mode));\<close>
  The conjunction is evaluated left to right and stops at the first failure.
\<close>

definition file_is_executable :: "filesystem \<Rightarrow> string \<Rightarrow> bool" where
  "file_is_executable fs name =
     (case access_X_OK fs name of
        Inl e \<Rightarrow> False
      | Inr u \<Rightarrow>
          (case stat fs name of
             Inl e \<Rightarrow> False
           | Inr m \<Rightarrow> S_ISREG m))"

subsection \<open>find\_executable\<close>

text \<open>
  What a call does besides returning: the strings it allocates (\<^verbatim>\<open>xasprintf\<close>,
  \<^verbatim>\<open>xstrdup\<close>), the paths it hands to \<open>file_is_executable\<close>, and the strings it frees,
  in program order.
\<close>

datatype event = Alloc string | Probe string | Free string

text \<open>
  \<^verbatim>\<open>strchrnul(p, c)\<close> returns a pointer to the first \<open>c\<close> in \<open>p\<close>, or to the
  terminating NUL when there is none. The model returns the offset of that pointer
  from \<open>p\<close>, so \<open>strchrnul p c = length p\<close> says that it points to the NUL.
\<close>

definition strchrnul :: "string \<Rightarrow> char \<Rightarrow> nat" where
  "strchrnul p c = length (takeWhile (\<lambda>x. x \<noteq> c) p)"

text \<open>
  \<^verbatim>\<open>int sz = end - p;\<close> The difference of the two pointers is the offset \<open>e\<close>; it
  is stored in a 32-bit \<^verbatim>\<open>int\<close>, so what \<open>sz\<close> holds is \<open>e\<close> reduced modulo \<open>2^32\<close> into
  the range from \<open>-2^31\<close> to \<open>2^31 - 1\<close>.
\<close>

definition INT_MAX :: nat where "INT_MAX = 2147483647"

definition int_of_ptrdiff :: "nat \<Rightarrow> int" where
  "int_of_ptrdiff e = (int e + 2147483648) mod 4294967296 - 2147483648"

text \<open>
  A call either comes back with a value or ends the process on the way.
\<close>

datatype 'a call = Returns 'a | Dies

text \<open>
  Modelled from the spec: \<^verbatim>\<open>xasprintf\<close> and \<^verbatim>\<open>xstrdup\<close> are not in this file. A call
  \<^verbatim>\<open>xasprintf("%.*s/%s", sz, p, name)\<close> gives the string the format denotes in C, in
  fresh memory: at most \<open>sz\<close> bytes of \<open>p\<close> (all of \<open>p\<close> when the precision \<open>sz\<close> is
  negative), a slash, and \<open>name\<close>; the spec calls it \<^verbatim>\<open>component + "/" + name\<close>. C's
  formatted print fails on a result longer than \<^verbatim>\<open>INT_MAX\<close>, and the helper then ends
  the process. \<^verbatim>\<open>xstrdup(name)\<close> is a copy of \<open>name\<close> in fresh memory, \<^verbatim>\<open>exactly name\<close> in
  the spec. Running out of memory, on which both helpers end the process too, is
  not modelled.
\<close>

definition xasprintf_path :: "int \<Rightarrow> string \<Rightarrow> string \<Rightarrow> string call" where
  "xasprintf_path sz p name =
     (let s = (if sz < 0 then p else take (nat sz) p) @ ''/'' @ name
      in if length s > INT_MAX then Dies else Returns s)"

definition xstrdup :: "string \<Rightarrow> string" where
  "xstrdup s = s"

text \<open>
  What \<open>find_executable\<close> returns: the returned pointer (\<open>None\<close> is \<^verbatim>\<open>NULL\<close>), the
  value of \<^verbatim>\<open>*PATHp\<close> when the call returns, and the events of the call.
\<close>

type_synonym find_result = "string option \<times> string option \<times> event list"

definition emit :: "event list \<Rightarrow> find_result call \<Rightarrow> find_result call" where
  "emit es r =
     (case r of
        Dies \<Rightarrow> Dies
      | Returns (ret, cur, tr) \<Rightarrow> Returns (ret, cur, es @ tr))"

text \<open>
  The \<^verbatim>\<open>while (1)\<close> loop. \<open>PATHp\<close> is the value of \<^verbatim>\<open>*PATHp\<close> on entry, which only the
  branch that finds a match overwrites; \<open>p\<close> is the local pointer. \<^verbatim>\<open>*end\<close> is NUL
  exactly when the offset \<open>e\<close> is the length of \<open>p\<close>, and \<^verbatim>\<open>end + 1\<close> is the string
  \<open>drop (e + 1) p\<close>.
\<close>

function find_executable_loop ::
  "filesystem \<Rightarrow> string \<Rightarrow> string option \<Rightarrow> string \<Rightarrow> find_result call" where
  "find_executable_loop fs name PATHp p =
     (let e = strchrnul p CHR '':'';
          sz = int_of_ptrdiff e
      in case (if sz \<noteq> 0 then xasprintf_path sz p name else Returns (xstrdup name)) of
           Dies \<Rightarrow> Dies
         | Returns cand \<Rightarrow>
             if file_is_executable fs cand
             then Returns (Some cand,
                           (if e \<noteq> length p then Some (drop (e + 1) p) else None),
                           [Alloc cand, Probe cand])
             else if e = length p
             then Returns (None, PATHp, [Alloc cand, Probe cand, Free cand])
             else emit [Alloc cand, Probe cand, Free cand]
                    (find_executable_loop fs name PATHp (drop (e + 1) p)))"
  by pat_completeness auto
termination
proof (relation "measure (\<lambda>(fs, name, PATHp, p). length p)")
  show "wf (measure (\<lambda>(fs, name, PATHp, p). length p))"
    by simp
next
  fix fs :: filesystem and name :: string and PATHp :: "string option"
    and p :: string and e :: nat
  assume e: "e = strchrnul p CHR '':''" and more: "e \<noteq> length p"
  from e more have "p \<noteq> []"
    by (auto simp: strchrnul_def)
  then show "((fs, name, PATHp, drop (e + 1) p), (fs, name, PATHp, p))
      \<in> measure (\<lambda>(fs, name, PATHp, p). length p)"
    by simp
qed

declare find_executable_loop.simps [simp del]

definition find_executable ::
  "filesystem \<Rightarrow> string \<Rightarrow> string option \<Rightarrow> find_result call" where
  "find_executable fs name PATHp =
     (case PATHp of
        None \<Rightarrow> Returns (None, PATHp, [])
      | Some p \<Rightarrow> find_executable_loop fs name PATHp p)"

subsection \<open>executable\_exists\<close>

text \<open>
  \<^verbatim>\<open>getenv\<close> reads the environment, a map from variable names to values. The
  cursor is a local of the call; \<^verbatim>\<open>free(ret)\<close> does nothing when \<open>ret\<close> is \<^verbatim>\<open>NULL\<close>.
\<close>

type_synonym environment = "string \<rightharpoonup> string"

definition getenv :: "environment \<Rightarrow> string \<Rightarrow> string option" where
  "getenv env k = env k"

definition executable_exists ::
  "environment \<Rightarrow> filesystem \<Rightarrow> string \<Rightarrow> (bool \<times> event list) call" where
  "executable_exists env fs name =
     (let path = getenv env ''PATH''
      in case find_executable fs name path of
           Dies \<Rightarrow> Dies
         | Returns (ret, cur, tr) \<Rightarrow>
             Returns (ret \<noteq> None,
                      tr @ (case ret of None \<Rightarrow> [] | Some s \<Rightarrow> [Free s])))"

subsection \<open>BB\_EXECVP and BB\_EXECVP\_or\_die\<close>

text \<open>
  The three build-time switches the dispatcher tests, as one value:
  \<^verbatim>\<open>ENABLE_FEATURE_PREFER_APPLETS\<close>, \<^verbatim>\<open>ENABLE_FEATURE_FORCE_NOEXEC\<close> and
  \<^verbatim>\<open>ENABLE_FEATURE_FORCE_APPLETS\<close>.
\<close>

record config =
  prefer_applets :: bool
  force_noexec :: bool
  force_applets :: bool

text \<open>
  What the dispatcher calls outside this file. \<open>find_applet_by_name\<close> returns the
  applet number, negative when there is none; \<open>APPLET_IS_NOEXEC\<close> is the flag of an
  applet; \<open>bb_busybox_exec_path\<close> is the path of the running binary. \<open>execvp sys
  file argv\<close> is \<open>None\<close> when the call replaces the process image, and \<open>Some e\<close> when it
  returns -1 with \<^verbatim>\<open>errno\<close> set to \<open>e\<close>.
\<close>

record system =
  find_applet_by_name :: "string \<Rightarrow> int"
  APPLET_IS_NOEXEC :: "int \<Rightarrow> bool"
  bb_busybox_exec_path :: string
  execvp :: "string \<Rightarrow> string list \<Rightarrow> errno option"

text \<open>
  How a call ends. \<open>Returned r e\<close>: control is back in the caller with return value
  \<open>r\<close> and \<^verbatim>\<open>errno\<close> equal to \<open>e\<close>. \<open>Replaced file argv\<close>: \<^verbatim>\<open>execvp(file, argv)\<close> succeeded
  and the process runs another image. \<open>Applet_Ran applet name argv\<close>: the process
  ended inside \<^verbatim>\<open>run_noexec_applet_and_exit(applet, name, argv)\<close>. \<open>Died status msg\<close>:
  the process ended in \<^verbatim>\<open>bb_perror_msg_and_die\<close> with that exit status, after the
  diagnostic \<open>msg\<close>. \<open>Undefined_Behaviour\<close>: the call passed a null file name on.
\<close>

datatype outcome =
    Returned int errno
  | Replaced string "string list"
  | Applet_Ran int string "string list"
  | Died nat string
  | Undefined_Behaviour

datatype exec_call = Execvp string "string list"

text \<open>
  Modelled from the spec: \<^verbatim>\<open>run_noexec_applet_and_exit\<close> is not in this file; the
  spec says that it does not return to the dispatcher and terminates the process
  itself.
\<close>

definition run_noexec_applet_and_exit :: "int \<Rightarrow> string \<Rightarrow> string list \<Rightarrow> outcome" where
  "run_noexec_applet_and_exit applet name argv = Applet_Ran applet name argv"

text \<open>
  The block under \<^verbatim>\<open>#if ENABLE_FEATURE_PREFER_APPLETS\<close>: \<open>Some\<close> of an outcome when
  control leaves \<open>BB_EXECVP\<close> inside the block, \<open>None\<close> when it reaches the last
  statement of the function; with it the calls of \<^verbatim>\<open>execvp\<close> made so far. The
  \<^verbatim>\<open>else\<close> branch that sets \<^verbatim>\<open>errno\<close> exists only under
  \<^verbatim>\<open>#if ENABLE_FEATURE_FORCE_APPLETS\<close>, itself inside the outer \<^verbatim>\<open>#if\<close>.
\<close>

definition prefer_applets_block ::
  "config \<Rightarrow> system \<Rightarrow> string \<Rightarrow> string list \<Rightarrow> outcome option \<times> exec_call list" where
  "prefer_applets_block cfg sys file argv =
     (if prefer_applets cfg then
        (let applet = find_applet_by_name sys file in
         if applet \<ge> 0 then
           (if force_noexec cfg \<or> APPLET_IS_NOEXEC sys applet
            then (Some (run_noexec_applet_and_exit applet file argv), [])
            else (case execvp sys (bb_busybox_exec_path sys) argv of
                    None \<Rightarrow> (Some (Replaced (bb_busybox_exec_path sys) argv),
                             [Execvp (bb_busybox_exec_path sys) argv])
                  | Some e \<Rightarrow> (None, [Execvp (bb_busybox_exec_path sys) argv])))
         else if force_applets cfg then (Some (Returned (- 1) ENOENT), [])
         else (None, []))
      else (None, []))"

text \<open>The whole function: the block, then \<^verbatim>\<open>return execvp(file, argv);\<close>.\<close>

definition BB_EXECVP ::
  "config \<Rightarrow> system \<Rightarrow> string \<Rightarrow> string list \<Rightarrow> outcome \<times> exec_call list" where
  "BB_EXECVP cfg sys file argv =
     (case prefer_applets_block cfg sys file argv of
        (Some out, calls) \<Rightarrow> (out, calls)
      | (None, calls) \<Rightarrow>
          (case execvp sys file argv of
             None \<Rightarrow> (Replaced file argv, calls @ [Execvp file argv])
           | Some e \<Rightarrow> (Returned (- 1) e, calls @ [Execvp file argv])))"

text \<open>
  The message of line 118, \<^verbatim>\<open>"can't execute '%s'"\<close> with \<^verbatim>\<open>argv[0]\<close> for \<^verbatim>\<open>%s\<close>.
\<close>

definition cant_execute :: "string \<Rightarrow> string" where
  "cant_execute arg0 = ''can'' @ [CHR 0x27] @ ''t execute '' @ [CHR 0x27] @ arg0 @ [CHR 0x27]"

text \<open>
  Modelled from the spec: \<^verbatim>\<open>bb_perror_msg_and_die\<close> is not in this file; the spec
  says that it emits the diagnostic and terminates the whole process, and the exit
  status it uses is the value of the global \<^verbatim>\<open>xfunc_error_retval\<close> at that moment.
\<close>

definition bb_perror_msg_and_die :: "nat \<Rightarrow> string \<Rightarrow> outcome" where
  "bb_perror_msg_and_die xfunc_error_retval msg = Died xfunc_error_retval msg"

text \<open>
  \<open>argv\<close> is the vector before its terminating null pointer, so \<^verbatim>\<open>argv[0]\<close> of the
  empty vector is that null pointer: the call hands it on as a file name, and the
  callees read through it. When \<open>BB_EXECVP\<close> comes back, line 117 sets
  \<^verbatim>\<open>xfunc_error_retval\<close> from \<^verbatim>\<open>errno\<close> and line 118 ends the process.
\<close>

definition BB_EXECVP_or_die ::
  "config \<Rightarrow> system \<Rightarrow> string list \<Rightarrow> outcome \<times> exec_call list" where
  "BB_EXECVP_or_die cfg sys argv =
     (case argv of
        [] \<Rightarrow> (Undefined_Behaviour, [])
      | arg0 # rest \<Rightarrow>
          (case BB_EXECVP cfg sys arg0 argv of
             (Returned r errno, calls) \<Rightarrow>
               (let xfunc_error_retval = (if errno = ENOENT then 127 else 126)
                in (bb_perror_msg_and_die xfunc_error_retval (cant_execute arg0), calls))
           | (out, calls) \<Rightarrow> (out, calls)))"

subsection \<open>Names for parts of the loop\<close>

text \<open>
  The string one pass of the loop builds when the local pointer is \<open>p\<close> (lines 43
  to 57), as a function of its own.
\<close>

definition candidate_at :: "string \<Rightarrow> string \<Rightarrow> string call" where
  "candidate_at p name =
     (if int_of_ptrdiff (strchrnul p CHR '':'') \<noteq> 0
      then xasprintf_path (int_of_ptrdiff (strchrnul p CHR '':'')) p name
      else Returns (xstrdup name))"

text \<open>
  A path and a name fit when the longest string a call could build from them, the
  whole path, a slash and the name, is no longer than \<^verbatim>\<open>INT_MAX\<close>: then every
  component's length is an \<^verbatim>\<open>int\<close> and every formatted print succeeds.
\<close>

definition fits_int :: "string \<Rightarrow> string \<Rightarrow> bool" where
  "fits_int p name \<longleftrightarrow> length p + 1 + length name \<le> INT_MAX"

subsection \<open>The search path as the specification describes it\<close>

text \<open>
  The specification reads a search path as its components, the strings between
  the delimiters: \<open>a::b\<close> has an empty component between \<open>a\<close> and \<open>b\<close>, a leading or
  trailing delimiter gives an empty component at that end, and the empty path is
  one empty component.
\<close>

fun components :: "string \<Rightarrow> string list" where
  "components [] = [[]]"
| "components (c # cs) =
     (if c = CHR '':'' then [] # components cs
      else (case components cs of
              [] \<Rightarrow> [[c]]
            | x # xs \<Rightarrow> (c # x) # xs))"

text \<open>The components a cursor still has to offer; none when it is exhausted.\<close>

definition remaining :: "string option \<Rightarrow> string list" where
  "remaining cur = (case cur of None \<Rightarrow> [] | Some p \<Rightarrow> components p)"

text \<open>The Candidate Path of a component, in the specification's words.\<close>

definition candidate_path :: "string \<Rightarrow> string \<Rightarrow> string" where
  "candidate_path name dir = (if dir = [] then name else dir @ ''/'' @ name)"

text \<open>
  The components a resolution looks at: each one in order, up to and including
  the first whose Candidate Path passes the probe.
\<close>

fun scanned :: "filesystem \<Rightarrow> string \<Rightarrow> string list \<Rightarrow> string list" where
  "scanned fs name [] = []"
| "scanned fs name (c # cs) =
     (if file_is_executable fs (candidate_path name c) then [c]
      else c # scanned fs name cs)"

text \<open>The strings allocated and the paths probed in a list of events.\<close>

fun allocated :: "event list \<Rightarrow> string list" where
  "allocated [] = []"
| "allocated (Alloc s # es) = s # allocated es"
| "allocated (Probe s # es) = allocated es"
| "allocated (Free s # es) = allocated es"

fun probed :: "event list \<Rightarrow> string list" where
  "probed [] = []"
| "probed (Alloc s # es) = probed es"
| "probed (Probe s # es) = s # probed es"
| "probed (Free s # es) = probed es"

subsection \<open>Concrete file systems and systems\<close>

text \<open>
  A sample file system given by a table of paths and modes: a path outside the
  table does not exist, and \<^verbatim>\<open>access(X_OK)\<close> is taken to succeed on an entry with an
  execute bit (octal 111) set, as it does for the superuser on a regular file.
\<close>

definition table_fs :: "(string \<times> mode_t) list \<Rightarrow> filesystem" where
  "table_fs files =
     \<lparr> access_X_OK = (\<lambda>p. case map_of files p of
                            None \<Rightarrow> Inl ENOENT
                          | Some m \<Rightarrow> if m AND 0x49 \<noteq> 0 then Inr () else Inl EACCES),
       stat = (\<lambda>p. case map_of files p of
                     None \<Rightarrow> Inl ENOENT
                   | Some m \<Rightarrow> Inr m) \<rparr>"

text \<open>A regular file and a directory, both of mode 755.\<close>

definition regular_755 :: mode_t where "regular_755 = 0x81ED"

text \<open>
  A system with one applet, \<open>ls\<close>, which is not a no-exec applet; \<open>ex\<close> says how
  \<^verbatim>\<open>execvp\<close> ends for each file name.
\<close>

definition example_system :: "(string \<Rightarrow> errno option) \<Rightarrow> system" where
  "example_system ex =
     \<lparr> find_applet_by_name = (\<lambda>n. if n = ''ls'' then 0 else - 1),
       APPLET_IS_NOEXEC = (\<lambda>a. False),
       bb_busybox_exec_path = ''/bin/busybox'',
       execvp = (\<lambda>file argv. ex file) \<rparr>"

text \<open>An environment whose only variable is \<open>PATH\<close>.\<close>

definition path_env :: "string \<Rightarrow> environment" where
  "path_env v = Map.empty(''PATH'' \<mapsto> v)"






section \<open>Properties\<close>

subsection \<open>The path string and its components\<close>

lemma components_ne: "components p \<noteq> []"
  by (induction p) (auto split: list.splits)

lemma strchrnul_le: "strchrnul p c \<le> length p"
  by (simp add: strchrnul_def length_takeWhile_le)

lemma take_strchrnul: "take (strchrnul p c) p = takeWhile (\<lambda>x. x \<noteq> c) p"
  unfolding strchrnul_def by (induction p) auto

lemma drop_strchrnul: "drop (strchrnul p c) p = dropWhile (\<lambda>x. x \<noteq> c) p"
  unfolding strchrnul_def by (induction p) auto

lemma strchrnul_Nil: "strchrnul [] c = 0"
  by (simp add: strchrnul_def)

lemma strchrnul_Cons: "strchrnul (x # xs) c = (if x = c then 0 else Suc (strchrnul xs c))"
  by (simp add: strchrnul_def)

lemma components_unfold:
  "components p =
     (if strchrnul p CHR '':'' = length p then [p]
      else take (strchrnul p CHR '':'') p # components (drop (Suc (strchrnul p CHR '':'')) p))"
proof (induction p)
  case Nil
  then show ?case by (simp add: strchrnul_Nil)
next
  case (Cons x xs)
  show ?case
  proof (cases "x = CHR '':''")
    case True
    then show ?thesis by (simp add: strchrnul_Cons)
  next
    case False
    then show ?thesis
      using Cons.IH by (auto simp: strchrnul_Cons split: list.splits)
  qed
qed

subsection \<open>The loop\<close>

lemma int_of_ptrdiff_small: "e \<le> INT_MAX \<Longrightarrow> int_of_ptrdiff e = int e"
  by (simp add: int_of_ptrdiff_def INT_MAX_def)

lemma int_of_ptrdiff_wraps: "int_of_ptrdiff 4294967296 = 0"
  by (simp add: int_of_ptrdiff_def)

lemma rest_shorter:
  "strchrnul p c \<noteq> length p \<Longrightarrow> length (drop (Suc (strchrnul p c)) p) < length p"
  using strchrnul_le [of p c] by (cases p) auto

lemma emit_Returns:
  "emit es r = Returns (ret, cur, tr) \<longleftrightarrow>
   (\<exists>tr'. r = Returns (ret, cur, tr') \<and> tr = es @ tr')"
  by (auto simp: emit_def split: call.splits)

lemma loop_unfold:
  "find_executable_loop fs name PATHp p =
     (case candidate_at p name of
        Dies \<Rightarrow> Dies
      | Returns cand \<Rightarrow>
          if file_is_executable fs cand
          then Returns (Some cand,
                        (if strchrnul p CHR '':'' \<noteq> length p
                         then Some (drop (Suc (strchrnul p CHR '':'')) p) else None),
                        [Alloc cand, Probe cand])
          else if strchrnul p CHR '':'' = length p
          then Returns (None, PATHp, [Alloc cand, Probe cand, Free cand])
          else emit [Alloc cand, Probe cand, Free cand]
                 (find_executable_loop fs name PATHp (drop (Suc (strchrnul p CHR '':'')) p)))"
  unfolding candidate_at_def Suc_eq_plus1
  by (subst find_executable_loop.simps) (simp only: Let_def)

lemma loop_cases [consumes 1, case_names match last step]:
  assumes "find_executable_loop fs name PATHp p = Returns (ret, cur, tr)"
  obtains
    (match) cand where "candidate_at p name = Returns cand" "file_is_executable fs cand"
      "ret = Some cand" "tr = [Alloc cand, Probe cand]"
      "cur = (if strchrnul p CHR '':'' \<noteq> length p
              then Some (drop (Suc (strchrnul p CHR '':'')) p) else None)"
  | (last) cand where "candidate_at p name = Returns cand" "\<not> file_is_executable fs cand"
      "strchrnul p CHR '':'' = length p"
      "ret = None" "cur = PATHp" "tr = [Alloc cand, Probe cand, Free cand]"
  | (step) cand tr' where "candidate_at p name = Returns cand" "\<not> file_is_executable fs cand"
      "strchrnul p CHR '':'' \<noteq> length p"
      "find_executable_loop fs name PATHp (drop (Suc (strchrnul p CHR '':'')) p) =
         Returns (ret, cur, tr')"
      "tr = [Alloc cand, Probe cand, Free cand] @ tr'"
proof (cases "candidate_at p name")
  case Dies
  with assms show ?thesis
    by (subst (asm) loop_unfold) simp
next
  case (Returns cand)
  show ?thesis
  proof (cases "file_is_executable fs cand")
    case True
    with assms Returns show ?thesis
      by (subst (asm) loop_unfold) (auto intro: match)
  next
    case False
    show ?thesis
    proof (cases "strchrnul p CHR '':'' = length p")
      case True
      with assms Returns False show ?thesis
        by (subst (asm) loop_unfold) (auto intro: last)
    next
      case ne: False
      with assms Returns False show ?thesis
        by (subst (asm) loop_unfold) (auto simp: emit_Returns intro: step)
    qed
  qed
qed


lemma allocated_append: "allocated (xs @ ys) = allocated xs @ allocated ys"
  by (induction xs rule: allocated.induct) auto

lemma probed_append: "probed (xs @ ys) = probed xs @ probed ys"
  by (induction xs rule: probed.induct) auto

lemma loop_probes:
  "find_executable_loop fs name PATHp p = Returns (ret, cur, tr) \<Longrightarrow>
   probed tr \<noteq> [] \<and>
   (\<forall>c\<in>set (butlast (probed tr)). \<not> file_is_executable fs c) \<and>
   (file_is_executable fs (last (probed tr)) \<longleftrightarrow> ret \<noteq> None) \<and>
   (\<forall>x. ret = Some x \<longrightarrow> x = last (probed tr))"
proof (induction p arbitrary: tr rule: length_induct)
  case (1 p)
  from "1.prems" show ?case
  proof (cases rule: loop_cases)
    case (match cand)
    then show ?thesis by simp
  next
    case (last cand)
    then show ?thesis by simp
  next
    case (step cand tr')
    from "1.IH" rest_shorter [OF step(3)] step(4)
    have "probed tr' \<noteq> [] \<and>
      (\<forall>c\<in>set (butlast (probed tr')). \<not> file_is_executable fs c) \<and>
      (file_is_executable fs (last (probed tr')) \<longleftrightarrow> ret \<noteq> None) \<and>
      (\<forall>x. ret = Some x \<longrightarrow> x = last (probed tr'))"
      by blast
    with step(2,5) show ?thesis by (auto simp: probed_append)
  qed
qed

lemma loop_not_found:
  "find_executable_loop fs name PATHp p = Returns (None, cur, tr) \<Longrightarrow>
   cur = PATHp \<and> length (probed tr) = length (components p)"
proof (induction p arbitrary: tr rule: length_induct)
  case (1 p)
  from "1.prems" show ?case
  proof (cases rule: loop_cases)
    case (match cand)
    then show ?thesis by simp
  next
    case (last cand)
    then show ?thesis by (subst components_unfold) simp
  next
    case (step cand tr')
    from "1.IH" rest_shorter [OF step(3)] step(4)
    have "cur = PATHp \<and> length (probed tr') =
        length (components (drop (Suc (strchrnul p CHR '':'')) p))"
      by blast
    with step(3,5) show ?thesis
      by (subst components_unfold) (simp add: probed_append)
  qed
qed

lemma loop_found_cursor:
  "find_executable_loop fs name PATHp p = Returns (Some x, cur, tr) \<Longrightarrow>
   length (probed tr) \<le> length (components p) \<and>
   remaining cur = drop (length (probed tr)) (components p) \<and>
   (\<forall>rest. cur = Some rest \<longrightarrow> suffix rest p \<and> length rest < length p)"
proof (induction p arbitrary: tr rule: length_induct)
  case (1 p)
  let ?e = "strchrnul p CHR '':''"
  from "1.prems" show ?case
  proof (cases rule: loop_cases)
    case (match cand)
    then show ?thesis
      using rest_shorter [of p "CHR '':''"]
      by (subst (1 2) components_unfold) (auto simp: remaining_def suffix_drop)
  next
    case (last cand)
    then show ?thesis by simp
  next
    case (step cand tr')
    from "1.IH" rest_shorter [OF step(3)] step(4)
    have ih: "length (probed tr') \<le> length (components (drop (Suc ?e) p)) \<and>
      remaining cur = drop (length (probed tr')) (components (drop (Suc ?e) p)) \<and>
      (\<forall>rest. cur = Some rest \<longrightarrow>
         suffix rest (drop (Suc ?e) p) \<and> length rest < length (drop (Suc ?e) p))"
      by blast
    have comps: "components p = take ?e p # components (drop (Suc ?e) p)"
      using step(3) by (subst components_unfold) simp
    have sfx: "suffix rest p \<and> length rest < length p"
      if "suffix rest (drop (Suc ?e) p)" "length rest < length (drop (Suc ?e) p)" for rest
      using that rest_shorter [OF step(3)] suffix_drop [of "Suc ?e" p]
      by (auto intro: suffix_order.trans)
    from ih step(5) sfx show ?thesis
      by (simp add: comps probed_append)
  qed
qed

lemma candidate_at_fits:
  assumes "length p + 1 + length name \<le> INT_MAX"
  shows "candidate_at p name = Returns (candidate_path name (take (strchrnul p CHR '':'') p))"
proof -
  let ?e = "strchrnul p CHR '':''"
  have le: "?e \<le> length p" by (rule strchrnul_le)
  with assms have "?e \<le> INT_MAX" by simp
  then have sz: "int_of_ptrdiff ?e = int ?e" by (rule int_of_ptrdiff_small)
  show ?thesis
  proof (cases "?e = 0")
    case True
    then show ?thesis
      by (simp add: candidate_at_def int_of_ptrdiff_def xstrdup_def candidate_path_def)
  next
    case False
    with le have ne: "take ?e p \<noteq> []" by (cases p) auto
    have "length (take ?e p @ ''/'' @ name) \<le> INT_MAX"
      using assms le by simp
    with False ne show ?thesis
      by (simp add: candidate_at_def sz xasprintf_path_def candidate_path_def Let_def)
  qed
qed

lemma scanned_Nil_iff: "scanned fs name ds = [] \<longleftrightarrow> ds = []"
  by (cases ds) auto

lemma loop_fits:
  "length p + 1 + length name \<le> INT_MAX \<Longrightarrow>
   \<exists>ret cur tr. find_executable_loop fs name PATHp p = Returns (ret, cur, tr) \<and>
     allocated tr = map (candidate_path name) (scanned fs name (components p)) \<and>
     probed tr = map (candidate_path name) (scanned fs name (components p)) \<and>
     ret = (if file_is_executable fs (candidate_path name (last (scanned fs name (components p))))
            then Some (candidate_path name (last (scanned fs name (components p))))
            else None)"
proof (induction p rule: length_induct)
  case (1 p)
  let ?e = "strchrnul p CHR '':''"
  let ?c = "candidate_path name (take ?e p)"
  let ?rest = "drop (Suc ?e) p"
  have cand: "candidate_at p name = Returns ?c"
    using "1.prems" by (rule candidate_at_fits)
  have unf: "components p = (if ?e = length p then [p] else take ?e p # components ?rest)"
    by (rule components_unfold)
  show ?case
  proof (cases "file_is_executable fs ?c")
    case True
    then show ?thesis
      by (subst loop_unfold) (auto simp: cand unf)
  next
    case False
    show ?thesis
    proof (cases "?e = length p")
      case True
      with False show ?thesis
        by (subst loop_unfold) (auto simp: cand unf)
    next
      case ne: False
      have "length ?rest + 1 + length name \<le> INT_MAX"
        using "1.prems" by simp
      with "1.IH" rest_shorter [OF ne] obtain ret cur tr where
        r: "find_executable_loop fs name PATHp ?rest = Returns (ret, cur, tr)"
          "allocated tr = map (candidate_path name) (scanned fs name (components ?rest))"
          "probed tr = map (candidate_path name) (scanned fs name (components ?rest))"
          "ret = (if file_is_executable fs
                      (candidate_path name (last (scanned fs name (components ?rest))))
                  then Some (candidate_path name (last (scanned fs name (components ?rest))))
                  else None)"
        by blast
      have comps: "components p = take ?e p # components ?rest"
        using ne by (subst components_unfold) simp
      have nonempty: "scanned fs name (components ?rest) \<noteq> []"
        by (simp add: scanned_Nil_iff components_ne)
      have "find_executable_loop fs name PATHp p =
          Returns (ret, cur, [Alloc ?c, Probe ?c, Free ?c] @ tr)"
        using False ne r(1) by (subst loop_unfold) (simp add: cand emit_def)
      with False r(2,3,4) nonempty show ?thesis
        by (simp add: comps)
    qed
  qed
qed

subsection \<open>Scanning a list of components\<close>

lemma scanned_prefix: "scanned fs name ds = take (length (scanned fs name ds)) ds"
  by (induction ds) auto

lemma scanned_length_le: "length (scanned fs name ds) \<le> length ds"
  by (induction ds) auto

lemma scanned_whole: "length (scanned fs name ds) = length ds \<Longrightarrow> scanned fs name ds = ds"
  using scanned_prefix [of fs name ds] by simp

subsection \<open>Running the functions on concrete input\<close>

lemmas run_simps =
  find_executable_def find_executable_loop.simps strchrnul_def Let_def int_of_ptrdiff_def
  xasprintf_path_def INT_MAX_def xstrdup_def emit_def executable_exists_def getenv_def
  file_is_executable_def table_fs_def regular_755_def S_ISREG_def S_IFMT_def S_IFREG_def
  ENOENT_def







subsection \<open>Claims about the probe\<close>


lemma file_is_executable_access_fails:
  "access_X_OK fs name = Inl e \<Longrightarrow> \<not> file_is_executable fs name"
  by (simp add: file_is_executable_def)

lemma file_is_executable_stat_fails:
  "stat fs name = Inl e \<Longrightarrow> \<not> file_is_executable fs name"
  by (simp add: file_is_executable_def split: sum.splits)





subsection \<open>Claims about the resolver\<close>

text \<open>
  C1. Whatever the cursor and the name, a path that \<open>find_executable\<close> returns
  passes \<open>file_is_executable\<close> in the same file system.
\<close>

theorem find_executable_returns_executable:
  "find_executable fs name PATHp = Returns (Some x, cur, tr) \<Longrightarrow> file_is_executable fs x"
  by (cases PATHp) (auto simp: find_executable_def dest: loop_probes)

theorem find_executable_returns_executable_witness:
  "find_executable (table_fs [(''/b/tool'', regular_755)]) ''tool'' (Some ''/a:/b'') =
     Returns (Some ''/b/tool'', None,
       [Alloc ''/a/tool'', Probe ''/a/tool'', Free ''/a/tool'',
        Alloc ''/b/tool'', Probe ''/b/tool'']) \<and>
   file_is_executable (table_fs [(''/b/tool'', regular_755)]) ''/b/tool''"
proof -
  have h: "find_executable (table_fs [(''/b/tool'', regular_755)]) ''tool'' (Some ''/a:/b'') =
     Returns (Some ''/b/tool'', None,
       [Alloc ''/a/tool'', Probe ''/a/tool'', Free ''/a/tool'',
        Alloc ''/b/tool'', Probe ''/b/tool''])"
    by (simp add: run_simps)
  show ?thesis
    using h find_executable_returns_executable [OF h] by simp
qed

text \<open>
  C2, as stated, fails: when the last component does not match, the function
  returns \<^verbatim>\<open>NULL\<close> without writing to \<^verbatim>\<open>*PATHp\<close>, so the cursor is not exhausted and
  a second call with it scans the same components again. Here the path is \<open>/a\<close>
  and no file exists.
\<close>

theorem find_executable_exhausts_counterexample:
  "find_executable (table_fs []) ''tool'' (Some ''/a'') =
     Returns (None, Some ''/a'', [Alloc ''/a/tool'', Probe ''/a/tool'', Free ''/a/tool''])"
  by (simp add: run_simps)

text \<open>
  C2, amended. When a call returns and the last path it probed, the one for the
  component where the scan stopped, fails the probe, then the call returns not
  found, it has probed one path for every component of the path, none of them
  executable, and the cursor is as it was on entry (the source calls it
  undefined), not exhausted. A second call with that cursor, in the same file
  system, probes the same paths again from the same position and returns not
  found again. When path and name fit, the paths probed are the Candidate Paths
  of all the components.
\<close>

theorem find_executable_not_found_keeps_cursor:
  assumes "find_executable fs name (Some p) = Returns (ret, cur, tr)"
    and "\<not> file_is_executable fs (last (probed tr))"
  shows "ret = None \<and> cur = Some p \<and>
    length (probed tr) = length (components p) \<and>
    (\<forall>c\<in>set (probed tr). \<not> file_is_executable fs c) \<and>
    find_executable fs name cur = Returns (None, Some p, tr) \<and>
    (fits_int p name \<longrightarrow> probed tr = map (candidate_path name) (components p))"
proof -
  from assms(1) have r: "find_executable_loop fs name (Some p) p = Returns (ret, cur, tr)"
    by (simp add: find_executable_def)
  note pr = loop_probes [OF r]
  from pr assms(2) have none: "ret = None" by simp
  with r loop_not_found [of fs name "Some p" p cur tr]
  have cur: "cur = Some p" and len: "length (probed tr) = length (components p)"
    by simp_all
  have "probed tr = butlast (probed tr) @ [last (probed tr)]"
    using pr by simp
  then have "set (probed tr) = set (butlast (probed tr)) \<union> {last (probed tr)}"
    by (metis list.set(1) list.simps(15) set_append Un_insert_right sup_bot.right_neutral)
  with pr assms(2) have fail: "\<forall>c\<in>set (probed tr). \<not> file_is_executable fs c"
    by auto
  have again: "find_executable fs name cur = Returns (None, Some p, tr)"
    using assms(1) none cur by simp
  have fit: "probed tr = map (candidate_path name) (components p)" if "fits_int p name"
  proof -
    from that have "length p + 1 + length name \<le> INT_MAX"
      by (simp add: fits_int_def)
    from loop_fits [OF this, of fs "Some p"] r
    have eq: "probed tr = map (candidate_path name) (scanned fs name (components p))"
      by auto
    with len have "length (scanned fs name (components p)) = length (components p)"
      by simp
    then have "scanned fs name (components p) = components p"
      by (rule scanned_whole)
    with eq show ?thesis by simp
  qed
  from none cur len fail again fit show ?thesis by blast
qed

theorem find_executable_not_found_keeps_cursor_witness:
  "find_executable (table_fs []) ''tool'' (Some ''/a:/b'') =
     Returns (None, Some ''/a:/b'',
       [Alloc ''/a/tool'', Probe ''/a/tool'', Free ''/a/tool'',
        Alloc ''/b/tool'', Probe ''/b/tool'', Free ''/b/tool'']) \<and>
   \<not> file_is_executable (table_fs []) ''/b/tool'' \<and>
   fits_int ''/a:/b'' ''tool'' \<and>
   components ''/a:/b'' = [''/a'', ''/b''] \<and>
   map (candidate_path ''tool'') (components ''/a:/b'') = [''/a/tool'', ''/b/tool'']"
proof -
  let ?tr = "[Alloc ''/a/tool'', Probe ''/a/tool'', Free ''/a/tool'',
        Alloc ''/b/tool'', Probe ''/b/tool'', Free ''/b/tool'']"
  have h: "find_executable (table_fs []) ''tool'' (Some ''/a:/b'') =
     Returns (None, Some ''/a:/b'', ?tr)"
    by (simp add: run_simps)
  have n: "\<not> file_is_executable (table_fs []) (last (probed ?tr))"
    by (simp add: file_is_executable_def table_fs_def)
  have f: "fits_int ''/a:/b'' ''tool''"
    by (simp add: fits_int_def INT_MAX_def)
  show ?thesis
    using h n f find_executable_not_found_keeps_cursor [OF h n]
    by (simp add: candidate_path_def)
qed

text \<open>
  C3. When a call that starts at \<open>p\<close> returns a match, it has probed one path for
  each of the components 0 to \<open>k\<close> of \<open>p\<close>, the match is the last of these paths
  and the only one that passes the probe, and the cursor it leaves offers exactly
  the components after \<open>k\<close>: it is exhausted when \<open>k\<close> was the last component, and
  otherwise it is a proper suffix of \<open>p\<close>. A second call with that cursor probes
  no more paths than there are components after \<open>k\<close>. When path and name fit, the
  match is the Candidate Path of component \<open>k\<close>, the Candidate Path of every
  earlier component fails the probe, and the second call probes Candidate Paths
  of components after \<open>k\<close> only, so whatever it returns comes from one of them.
\<close>

theorem find_executable_resumes_after_match:
  assumes "find_executable fs name (Some p) = Returns (Some x, cur, tr)"
  shows "\<exists>k<length (components p).
    length (probed tr) = Suc k \<and> last (probed tr) = x \<and> file_is_executable fs x \<and>
    (\<forall>c\<in>set (butlast (probed tr)). \<not> file_is_executable fs c) \<and>
    remaining cur = drop (Suc k) (components p) \<and>
    (cur = None \<longleftrightarrow> Suc k = length (components p)) \<and>
    (\<forall>rest. cur = Some rest \<longrightarrow> strict_suffix rest p) \<and>
    (\<forall>ret' cur' tr'. find_executable fs name cur = Returns (ret', cur', tr') \<longrightarrow>
       length (probed tr') \<le> length (components p) - Suc k) \<and>
    (fits_int p name \<longrightarrow>
       x = candidate_path name (components p ! k) \<and>
       (\<forall>i<k. \<not> file_is_executable fs (candidate_path name (components p ! i))) \<and>
       (\<exists>ret' cur' tr'. find_executable fs name cur = Returns (ret', cur', tr') \<and>
          probed tr' =
            map (candidate_path name) (scanned fs name (drop (Suc k) (components p))) \<and>
          (\<forall>y. ret' = Some y \<longrightarrow>
             (\<exists>j. k < j \<and> j < length (components p) \<and>
                  y = candidate_path name (components p ! j)))))"
proof -
  let ?cs = "components p"
  from assms have r: "find_executable_loop fs name (Some p) p = Returns (Some x, cur, tr)"
    by (simp add: find_executable_def)
  note pr = loop_probes [OF r]
  note cu = loop_found_cursor [OF r]
  from pr obtain k where k: "length (probed tr) = Suc k"
    by (cases "probed tr") auto
  from cu k have klt: "k < length ?cs" by simp
  from pr have last: "last (probed tr) = x" and exe: "file_is_executable fs x"
    and early: "\<forall>c\<in>set (butlast (probed tr)). \<not> file_is_executable fs c"
    by simp_all
  from cu k have rem: "remaining cur = drop (Suc k) ?cs" by simp
  have ex: "cur = None \<longleftrightarrow> Suc k = length ?cs"
  proof (cases cur)
    case None
    with klt rem show ?thesis by (simp add: remaining_def)
  next
    case (Some rest)
    with rem components_ne [of rest] show ?thesis by (auto simp: remaining_def)
  qed
  have suf: "\<forall>rest. cur = Some rest \<longrightarrow> strict_suffix rest p"
    using cu by (auto simp: strict_suffix_def)
  have few: "length (probed tr') \<le> length ?cs - Suc k"
    if second: "find_executable fs name cur = Returns (ret', cur', tr')" for ret' cur' tr'
  proof (cases cur)
    case None
    with second show ?thesis by (simp add: find_executable_def)
  next
    case (Some rest)
    with second have l: "find_executable_loop fs name (Some rest) rest = Returns (ret', cur', tr')"
      by (simp add: find_executable_def)
    from Some rem have c: "components rest = drop (Suc k) ?cs"
      by (simp add: remaining_def)
    have "length (probed tr') \<le> length (components rest)"
    proof (cases ret')
      case None
      with l loop_not_found [of fs name "Some rest" rest cur' tr'] show ?thesis by simp
    next
      case (Some y)
      with l loop_found_cursor [of fs name "Some rest" rest y cur' tr'] show ?thesis by simp
    qed
    with c show ?thesis by simp
  qed
  have fit: "x = candidate_path name (?cs ! k) \<and>
       (\<forall>i<k. \<not> file_is_executable fs (candidate_path name (?cs ! i))) \<and>
       (\<exists>ret' cur' tr'. find_executable fs name cur = Returns (ret', cur', tr') \<and>
          probed tr' = map (candidate_path name) (scanned fs name (drop (Suc k) ?cs)) \<and>
          (\<forall>y. ret' = Some y \<longrightarrow>
             (\<exists>j. k < j \<and> j < length ?cs \<and> y = candidate_path name (?cs ! j))))"
    if "fits_int p name"
  proof -
    from that have b: "length p + 1 + length name \<le> INT_MAX"
      by (simp add: fits_int_def)
    from loop_fits [OF b, of fs "Some p"] r
    have eq: "probed tr = map (candidate_path name) (scanned fs name ?cs)"
      by auto
    with k have "length (scanned fs name ?cs) = Suc k" by simp
    with scanned_prefix [of fs name ?cs] have sc: "scanned fs name ?cs = take (Suc k) ?cs"
      by simp
    from eq sc have ptr: "probed tr = map (candidate_path name) (take (Suc k) ?cs)"
      by simp
    have tk: "take (Suc k) ?cs = take k ?cs @ [?cs ! k]"
      using klt by (rule take_Suc_conv_app_nth)
    from ptr tk last have x: "x = candidate_path name (?cs ! k)"
      by simp
    from ptr tk have bl: "butlast (probed tr) = map (candidate_path name) (take k ?cs)"
      by simp
    have before: "\<not> file_is_executable fs (candidate_path name (?cs ! i))" if "i < k" for i
    proof -
      from that klt have "?cs ! i \<in> set (take k ?cs)"
        by (auto simp: in_set_conv_nth intro!: exI [of _ i])
      with bl have "candidate_path name (?cs ! i) \<in> set (butlast (probed tr))"
        by simp
      with early show ?thesis by blast
    qed
    have second: "\<exists>ret' cur' tr'. find_executable fs name cur = Returns (ret', cur', tr') \<and>
          probed tr' = map (candidate_path name) (scanned fs name (drop (Suc k) ?cs)) \<and>
          (\<forall>y. ret' = Some y \<longrightarrow>
             (\<exists>j. k < j \<and> j < length ?cs \<and> y = candidate_path name (?cs ! j)))"
    proof (cases cur)
      case None
      with rem show ?thesis
        by (simp add: find_executable_def remaining_def)
    next
      case (Some rest)
      with cu have "length rest < length p" by simp
      with b have b': "length rest + 1 + length name \<le> INT_MAX" by simp
      from Some rem have c: "components rest = drop (Suc k) ?cs"
        by (simp add: remaining_def)
      from loop_fits [OF b', of fs "Some rest"] obtain ret' cur' tr' where
        l: "find_executable_loop fs name (Some rest) rest = Returns (ret', cur', tr')"
          "probed tr' = map (candidate_path name) (scanned fs name (components rest))"
        by blast
      let ?ds = "drop (Suc k) ?cs"
      let ?n = "length (scanned fs name ?ds)"
      have from_later: "\<exists>j. k < j \<and> j < length ?cs \<and> y = candidate_path name (?cs ! j)"
        if y: "ret' = Some y" for y
      proof -
        from loop_probes [OF l(1)] y have ne: "probed tr' \<noteq> []" and yl: "y = last (probed tr')"
          by simp_all
        from ne l(2) c have pos: "0 < ?n" by simp
        have le: "?n \<le> length ?ds" by (rule scanned_length_le)
        have "scanned fs name ?ds = take ?n ?ds" by (rule scanned_prefix)
        with pos le have "last (scanned fs name ?ds) = ?ds ! (?n - 1)"
          by (metis One_nat_def Suc_pred last_conv_nth length_greater_0_conv
              less_Suc_eq_le not_less_eq_eq nth_take order_refl)
        moreover from pos have "scanned fs name ?ds \<noteq> []" by auto
        ultimately have "y = candidate_path name (?ds ! (?n - 1))"
          using yl l(2) c by (simp add: last_map)
        moreover have "?ds ! (?n - 1) = ?cs ! (Suc k + (?n - 1))"
          using klt by (simp add: nth_drop)
        moreover have "k < Suc k + (?n - 1)"
          by simp
        moreover have "Suc k + (?n - 1) < length ?cs"
        proof -
          from le have "?n \<le> length ?cs - Suc k" by simp
          with pos klt show ?thesis by arith
        qed
        ultimately show ?thesis by metis
      qed
      from Some l c from_later show ?thesis
        by (auto simp: find_executable_def)
    qed
    from x before second show ?thesis by blast
  qed
  show ?thesis
  proof (intro exI [of _ k] conjI)
    show "k < length ?cs" by (rule klt)
    show "length (probed tr) = Suc k" by (rule k)
    show "last (probed tr) = x" by (rule last)
    show "file_is_executable fs x" by (rule exe)
    show "\<forall>c\<in>set (butlast (probed tr)). \<not> file_is_executable fs c" by (rule early)
    show "remaining cur = drop (Suc k) ?cs" by (rule rem)
    show "cur = None \<longleftrightarrow> Suc k = length ?cs" by (rule ex)
    show "\<forall>rest. cur = Some rest \<longrightarrow> strict_suffix rest p" by (rule suf)
    show "\<forall>ret' cur' tr'. find_executable fs name cur = Returns (ret', cur', tr') \<longrightarrow>
       length (probed tr') \<le> length ?cs - Suc k"
      using few by blast
    show "fits_int p name \<longrightarrow>
       x = candidate_path name (?cs ! k) \<and>
       (\<forall>i<k. \<not> file_is_executable fs (candidate_path name (?cs ! i))) \<and>
       (\<exists>ret' cur' tr'. find_executable fs name cur = Returns (ret', cur', tr') \<and>
          probed tr' = map (candidate_path name) (scanned fs name (drop (Suc k) ?cs)) \<and>
          (\<forall>y. ret' = Some y \<longrightarrow>
             (\<exists>j. k < j \<and> j < length ?cs \<and> y = candidate_path name (?cs ! j))))"
      using fit by blast
  qed
qed

theorem find_executable_resumes_after_match_witness:
  "find_executable (table_fs [(''/b/tool'', regular_755), (''/c/tool'', regular_755)])
     ''tool'' (Some ''/a:/b:/c'') =
     Returns (Some ''/b/tool'', Some ''/c'',
       [Alloc ''/a/tool'', Probe ''/a/tool'', Free ''/a/tool'',
        Alloc ''/b/tool'', Probe ''/b/tool'']) \<and>
   fits_int ''/a:/b:/c'' ''tool'' \<and>
   (\<exists>k<length (components ''/a:/b:/c'').
      length (probed [Alloc ''/a/tool'', Probe ''/a/tool'', Free ''/a/tool'',
        Alloc ''/b/tool'', Probe ''/b/tool'']) = Suc k \<and>
      remaining (Some ''/c'') = drop (Suc k) (components ''/a:/b:/c'') \<and>
      strict_suffix ''/c'' ''/a:/b:/c'' \<and>
      ''/b/tool'' = candidate_path ''tool'' (components ''/a:/b:/c'' ! k) \<and>
      (\<forall>i<k. \<not> file_is_executable
         (table_fs [(''/b/tool'', regular_755), (''/c/tool'', regular_755)])
         (candidate_path ''tool'' (components ''/a:/b:/c'' ! i))))"
proof -
  let ?fs = "table_fs [(''/b/tool'', regular_755), (''/c/tool'', regular_755)]"
  let ?tr = "[Alloc ''/a/tool'', Probe ''/a/tool'', Free ''/a/tool'',
        Alloc ''/b/tool'', Probe ''/b/tool'']"
  have h: "find_executable ?fs ''tool'' (Some ''/a:/b:/c'') =
     Returns (Some ''/b/tool'', Some ''/c'', ?tr)"
    by (simp add: run_simps)
  have f: "fits_int ''/a:/b:/c'' ''tool''"
    by (simp add: fits_int_def INT_MAX_def)
  from find_executable_resumes_after_match [OF h] f
  have "\<exists>k<length (components ''/a:/b:/c'').
      length (probed ?tr) = Suc k \<and>
      remaining (Some ''/c'') = drop (Suc k) (components ''/a:/b:/c'') \<and>
      strict_suffix ''/c'' ''/a:/b:/c'' \<and>
      ''/b/tool'' = candidate_path ''tool'' (components ''/a:/b:/c'' ! k) \<and>
      (\<forall>i<k. \<not> file_is_executable ?fs (candidate_path ''tool'' (components ''/a:/b:/c'' ! i)))"
    by blast
  with h f show ?thesis by (intro conjI)
qed

lemma find_executable_resume_example:
  "find_executable (table_fs [(''/b/tool'', regular_755), (''/c/tool'', regular_755)])
     ''tool'' (Some ''/c'') =
     Returns (Some ''/c/tool'', None, [Alloc ''/c/tool'', Probe ''/c/tool''])"
  by (simp add: run_simps)

text \<open>
  With path \<open>/a:/b:/a:/c\<close> and \<open>/a/tool\<close> executable, the first component matches
  and the cursor is left at \<open>/b:/a:/c\<close>, not after the later \<open>/a\<close>.
\<close>

lemma find_executable_repeated_component_example:
  "find_executable (table_fs [(''/a/tool'', regular_755), (''/b/tool'', regular_755)])
     ''tool'' (Some ''/a:/b:/a:/c'') =
     Returns (Some ''/a/tool'', Some ''/b:/a:/c'', [Alloc ''/a/tool'', Probe ''/a/tool''])"
  by (simp add: run_simps)

text \<open>
  C4, as stated, fails for the empty path: the loop reads the empty string as
  one empty component, so it probes the bare name, and when a regular executable
  file of that name is reachable from the current directory both functions
  report a match.
\<close>

theorem find_executable_empty_path_counterexample:
  "find_executable (table_fs [(''tool'', regular_755)]) ''tool'' (Some []) =
     Returns (Some ''tool'', None, [Alloc ''tool'', Probe ''tool'']) \<and>
   executable_exists (path_env []) (table_fs [(''tool'', regular_755)]) ''tool'' =
     Returns (True, [Alloc ''tool'', Probe ''tool'', Free ''tool''])"
  by (simp add: run_simps path_env_def)

text \<open>
  C4, amended. With an absent path (a null cursor, or \<open>PATH\<close> unset) both functions
  return not found and do nothing else: no allocation, no probe. With an empty
  path the resolver probes the bare name once, and both functions return found
  exactly when the bare name passes the probe.
\<close>

theorem find_executable_absent_or_empty_path:
  "find_executable fs name None = Returns (None, None, []) \<and>
   executable_exists (env(''PATH'' := None)) fs name = Returns (False, []) \<and>
   find_executable fs name (Some []) =
     Returns (if file_is_executable fs name
              then (Some name, None, [Alloc name, Probe name])
              else (None, Some [], [Alloc name, Probe name, Free name])) \<and>
   executable_exists (env(''PATH'' \<mapsto> [])) fs name =
     Returns (file_is_executable fs name, [Alloc name, Probe name, Free name])"
proof -
  have c: "candidate_at [] name = Returns name"
    by (simp add: candidate_at_def strchrnul_Nil int_of_ptrdiff_def xstrdup_def)
  have e: "find_executable_loop fs name (Some []) [] =
      Returns (if file_is_executable fs name
               then (Some name, None, [Alloc name, Probe name])
               else (None, Some [], [Alloc name, Probe name, Free name]))"
    by (subst loop_unfold) (simp add: c strchrnul_Nil)
  show ?thesis
    by (simp add: find_executable_def executable_exists_def getenv_def e)
qed

theorem find_executable_absent_or_empty_path_witness:
  "find_executable (table_fs [(''tool'', regular_755)]) ''tool'' None =
     Returns (None, None, []) \<and>
   executable_exists Map.empty (table_fs [(''tool'', regular_755)]) ''tool'' =
     Returns (False, []) \<and>
   find_executable (table_fs [(''tool'', regular_755)]) ''tool'' (Some []) =
     Returns (Some ''tool'', None, [Alloc ''tool'', Probe ''tool'']) \<and>
   executable_exists (path_env []) (table_fs [(''tool'', regular_755)]) ''tool'' =
     Returns (True, [Alloc ''tool'', Probe ''tool'', Free ''tool''])"
proof -
  have x: "file_is_executable (table_fs [(''tool'', regular_755)]) ''tool''"
    by (simp add: file_is_executable_def table_fs_def regular_755_def
        S_ISREG_def S_IFMT_def S_IFREG_def)
  show ?thesis
    using x find_executable_absent_or_empty_path
      [of "table_fs [(''tool'', regular_755)]" "''tool''" Map.empty]
    by (simp add: path_env_def)
qed




lemma find_executable_empty_component_example:
  "find_executable (table_fs [(''tool'', regular_755)]) ''tool'' (Some ''/a::/b'') =
     Returns (Some ''tool'', Some ''/b'',
      [Alloc ''/a/tool'', Probe ''/a/tool'', Free ''/a/tool'', Alloc ''tool'', Probe ''tool''])"
  by (simp add: run_simps)

lemma find_executable_trailing_colon_example:
  "find_executable (table_fs [(''tool'', regular_755)]) ''tool'' (Some ''/a:'') =
     Returns (Some ''tool'', None,
      [Alloc ''/a/tool'', Probe ''/a/tool'', Free ''/a/tool'', Alloc ''tool'', Probe ''tool''])"
  by (simp add: run_simps)

subsection \<open>Claims about the dispatcher\<close>

text \<open>
  C7. With applet preference on and force-no-exec off, a name that the registry
  knows as an applet without the no-exec flag makes the dispatcher call
  \<^verbatim>\<open>execvp\<close> first on the running binary's own path, with the argument vector it
  was given; when that call succeeds nothing else happens.
\<close>

theorem BB_EXECVP_reexecs_own_image:
  assumes "prefer_applets cfg" and "\<not> force_noexec cfg"
    and "0 \<le> find_applet_by_name sys file"
    and "\<not> APPLET_IS_NOEXEC sys (find_applet_by_name sys file)"
  shows "snd (BB_EXECVP cfg sys file argv) =
      Execvp (bb_busybox_exec_path sys) argv #
        (case execvp sys (bb_busybox_exec_path sys) argv of
           None \<Rightarrow> []
         | Some e \<Rightarrow> [Execvp file argv]) \<and>
    (execvp sys (bb_busybox_exec_path sys) argv = None \<longrightarrow>
      fst (BB_EXECVP cfg sys file argv) = Replaced (bb_busybox_exec_path sys) argv)"
  using assms
  by (simp add: BB_EXECVP_def prefer_applets_block_def Let_def split: option.splits)

theorem BB_EXECVP_reexecs_own_image_witness:
  "prefer_applets \<lparr>prefer_applets = True, force_noexec = False, force_applets = False\<rparr> \<and>
   \<not> force_noexec \<lparr>prefer_applets = True, force_noexec = False, force_applets = False\<rparr> \<and>
   0 \<le> find_applet_by_name (example_system (\<lambda>f. None)) ''ls'' \<and>
   \<not> APPLET_IS_NOEXEC (example_system (\<lambda>f. None))
       (find_applet_by_name (example_system (\<lambda>f. None)) ''ls'') \<and>
   execvp (example_system (\<lambda>f. None)) (bb_busybox_exec_path (example_system (\<lambda>f. None)))
     [''ls'', ''-l''] = None \<and>
   BB_EXECVP \<lparr>prefer_applets = True, force_noexec = False, force_applets = False\<rparr>
     (example_system (\<lambda>f. None)) ''ls'' [''ls'', ''-l''] =
     (Replaced ''/bin/busybox'' [''ls'', ''-l''], [Execvp ''/bin/busybox'' [''ls'', ''-l'']])"
proof -
  let ?cfg = "\<lparr>prefer_applets = True, force_noexec = False, force_applets = False\<rparr>"
  let ?sys = "example_system (\<lambda>f. None)"
  have 1: "prefer_applets ?cfg" and 2: "\<not> force_noexec ?cfg" by simp_all
  have 3: "0 \<le> find_applet_by_name ?sys ''ls''"
    by (simp add: example_system_def)
  have 4: "\<not> APPLET_IS_NOEXEC ?sys (find_applet_by_name ?sys ''ls'')"
    by (simp add: example_system_def)
  have 5: "execvp ?sys (bb_busybox_exec_path ?sys) [''ls'', ''-l''] = None"
    by (simp add: example_system_def)
  have 6: "bb_busybox_exec_path ?sys = ''/bin/busybox''"
    by (simp add: example_system_def)
  show ?thesis
    using 1 2 3 4 5 BB_EXECVP_reexecs_own_image [OF 1 2 3 4, of "[''ls'', ''-l'']"]
    by (simp add: 6 prod_eq_iff)
qed

text \<open>
  C8, as stated, fails: the branch that sets \<^verbatim>\<open>errno\<close> to \<^verbatim>\<open>ENOENT\<close> is compiled only
  inside the block for applet preference. With force-applets on and applet
  preference off the registry is not asked, and a name that is no applet goes to
  \<^verbatim>\<open>execvp\<close>, whose error is the one returned.
\<close>

theorem BB_EXECVP_force_applets_counterexample:
  "force_applets \<lparr>prefer_applets = False, force_noexec = False, force_applets = True\<rparr> \<and>
   find_applet_by_name (example_system (\<lambda>f. Some EACCES)) ''nosuch'' < 0 \<and>
   BB_EXECVP \<lparr>prefer_applets = False, force_noexec = False, force_applets = True\<rparr>
     (example_system (\<lambda>f. Some EACCES)) ''nosuch'' [''nosuch''] =
     (Returned (- 1) EACCES, [Execvp ''nosuch'' [''nosuch'']]) \<and>
   EACCES \<noteq> ENOENT"
  by (simp add: BB_EXECVP_def prefer_applets_block_def example_system_def EACCES_def ENOENT_def)

text \<open>
  C8, amended. With applet preference on and force-applets on, a name that the
  registry does not know makes the dispatcher return -1 with \<^verbatim>\<open>errno\<close> set to
  \<^verbatim>\<open>ENOENT\<close>, without any call of \<^verbatim>\<open>execvp\<close>.
\<close>

theorem BB_EXECVP_force_applets_enoent:
  assumes "prefer_applets cfg" and "force_applets cfg"
    and "find_applet_by_name sys file < 0"
  shows "BB_EXECVP cfg sys file argv = (Returned (- 1) ENOENT, [])"
  using assms by (simp add: BB_EXECVP_def prefer_applets_block_def Let_def)

theorem BB_EXECVP_force_applets_enoent_witness:
  "prefer_applets \<lparr>prefer_applets = True, force_noexec = False, force_applets = True\<rparr> \<and>
   force_applets \<lparr>prefer_applets = True, force_noexec = False, force_applets = True\<rparr> \<and>
   find_applet_by_name (example_system (\<lambda>f. None)) ''nosuch'' < 0 \<and>
   BB_EXECVP \<lparr>prefer_applets = True, force_noexec = False, force_applets = True\<rparr>
     (example_system (\<lambda>f. None)) ''nosuch'' [''nosuch''] = (Returned (- 1) ENOENT, [])"
proof -
  let ?cfg = "\<lparr>prefer_applets = True, force_noexec = False, force_applets = True\<rparr>"
  let ?sys = "example_system (\<lambda>f. None)"
  have 1: "prefer_applets ?cfg" and 2: "force_applets ?cfg" by simp_all
  have 3: "find_applet_by_name ?sys ''nosuch'' < 0"
    by (simp add: example_system_def)
  show ?thesis
    using 1 2 3 BB_EXECVP_force_applets_enoent [OF 1 2 3, of "[''nosuch'']"] by simp
qed

text \<open>
  C10. When the dispatcher has tried to run the binary's own image for an applet
  and that \<^verbatim>\<open>execvp\<close> has returned, the error is not reported: the dispatcher goes
  on to call \<^verbatim>\<open>execvp\<close> on the requested file name with the same argument vector,
  and how that second call ends is how the dispatcher ends.
\<close>

theorem BB_EXECVP_falls_through_after_failed_reexec:
  assumes "prefer_applets cfg" and "\<not> force_noexec cfg"
    and "0 \<le> find_applet_by_name sys file"
    and "\<not> APPLET_IS_NOEXEC sys (find_applet_by_name sys file)"
    and "execvp sys (bb_busybox_exec_path sys) argv = Some e"
  shows "BB_EXECVP cfg sys file argv =
    ((case execvp sys file argv of
        None \<Rightarrow> Replaced file argv
      | Some e' \<Rightarrow> Returned (- 1) e'),
     [Execvp (bb_busybox_exec_path sys) argv, Execvp file argv])"
  using assms
  by (simp add: BB_EXECVP_def prefer_applets_block_def Let_def split: option.splits)

theorem BB_EXECVP_falls_through_after_failed_reexec_witness:
  "prefer_applets \<lparr>prefer_applets = True, force_noexec = False, force_applets = True\<rparr> \<and>
   \<not> force_noexec \<lparr>prefer_applets = True, force_noexec = False, force_applets = True\<rparr> \<and>
   0 \<le> find_applet_by_name
     (example_system (\<lambda>f. if f = ''/bin/busybox'' then Some EACCES else Some ENOENT)) ''ls'' \<and>
   \<not> APPLET_IS_NOEXEC
     (example_system (\<lambda>f. if f = ''/bin/busybox'' then Some EACCES else Some ENOENT))
     (find_applet_by_name
       (example_system (\<lambda>f. if f = ''/bin/busybox'' then Some EACCES else Some ENOENT)) ''ls'') \<and>
   execvp (example_system (\<lambda>f. if f = ''/bin/busybox'' then Some EACCES else Some ENOENT))
     (bb_busybox_exec_path
       (example_system (\<lambda>f. if f = ''/bin/busybox'' then Some EACCES else Some ENOENT)))
     [''ls'', ''-l''] = Some EACCES \<and>
   BB_EXECVP \<lparr>prefer_applets = True, force_noexec = False, force_applets = True\<rparr>
     (example_system (\<lambda>f. if f = ''/bin/busybox'' then Some EACCES else Some ENOENT))
     ''ls'' [''ls'', ''-l''] =
     (Returned (- 1) ENOENT,
      [Execvp ''/bin/busybox'' [''ls'', ''-l''], Execvp ''ls'' [''ls'', ''-l'']])"
proof -
  let ?cfg = "\<lparr>prefer_applets = True, force_noexec = False, force_applets = True\<rparr>"
  let ?sys = "example_system (\<lambda>f. if f = ''/bin/busybox'' then Some EACCES else Some ENOENT)"
  have 1: "prefer_applets ?cfg" and 2: "\<not> force_noexec ?cfg" by simp_all
  have 3: "0 \<le> find_applet_by_name ?sys ''ls''"
    by (simp add: example_system_def)
  have 4: "\<not> APPLET_IS_NOEXEC ?sys (find_applet_by_name ?sys ''ls'')"
    by (simp add: example_system_def)
  have 5: "execvp ?sys (bb_busybox_exec_path ?sys) [''ls'', ''-l''] = Some EACCES"
    by (simp add: example_system_def)
  have 6: "bb_busybox_exec_path ?sys = ''/bin/busybox''"
    and 7: "execvp ?sys ''ls'' [''ls'', ''-l''] = Some ENOENT"
    by (simp_all add: example_system_def)
  show ?thesis
    using 1 2 3 4 5 BB_EXECVP_falls_through_after_failed_reexec [OF 1 2 3 4 5]
    by (simp add: 6 7)
qed



lemma BB_EXECVP_or_die_other_error_example:
  "BB_EXECVP_or_die \<lparr>prefer_applets = False, force_noexec = False, force_applets = False\<rparr>
     (example_system (\<lambda>f. Some EACCES)) [''/etc/passwd''] =
   (Died 126 (''can'' @ [CHR 0x27] @ ''t execute '' @ [CHR 0x27] @ ''/etc/passwd'' @ [CHR 0x27]),
    [Execvp ''/etc/passwd'' [''/etc/passwd'']])"
  by (simp add: BB_EXECVP_or_die_def BB_EXECVP_def prefer_applets_block_def example_system_def
      bb_perror_msg_and_die_def cant_execute_def EACCES_def ENOENT_def)

lemma BB_EXECVP_or_die_passes_on:
  "fst (BB_EXECVP cfg sys arg0 (arg0 # rest)) = Replaced f a \<or>
   fst (BB_EXECVP cfg sys arg0 (arg0 # rest)) = Applet_Ran n f a \<Longrightarrow>
   BB_EXECVP_or_die cfg sys (arg0 # rest) = BB_EXECVP cfg sys arg0 (arg0 # rest)"
  by (auto simp: BB_EXECVP_or_die_def split: prod.splits outcome.splits)

lemma BB_EXECVP_or_die_empty_vector:
  "BB_EXECVP_or_die cfg sys [] = (Undefined_Behaviour, [])"
  by (simp add: BB_EXECVP_or_die_def)

end
